theory Spec2Isabelle
  imports Complex_Main
begin

section \<open>JavaScript values\<close>

text \<open>
  This theory models the JSON seeder of the repository: the record normalizer
  \<open>DataProcessor.processGeneric\<close> (\<open>lib/data-processor.js\<close>), and the operations of the
  class \<open>SeederFactory\<close> (\<open>lib/seeder-factory.js\<close>, listed after the README) that load a
  data file, normalize its records, insert them in batches and remove them again,
  together with the seeder template that calls them.

  The seeder works on the values that \<open>JSON.parse\<close> produces and on a few more that a
  caller of the library can pass in.  An object is the list of its own enumerable
  properties in enumeration order; an array is the list of its elements.  Numbers are
  only copied by the code under study, never computed with, so their payload is kept
  as a real number.  A date carries its epoch milliseconds.  Of the values whose
  \<open>typeof\<close> is none of \<open>string\<close>, \<open>number\<close>, \<open>boolean\<close> and \<open>object\<close>, big integers and
  symbols are represented (a symbol carries its description); functions are not.
  Strings are lists of code units below 256.  Only own properties are represented:
  the prototype of an object is not, and the methods the code calls on a record
  (\<open>hasOwnProperty\<close>) are taken to be the built-in ones.
\<close>

datatype jsvalue =
    JUndefined
  | JNull
  | JBool bool
  | JNum real
  | JStr string
  | JDate int
  | JArr "jsvalue list"
  | JObj "(string \<times> jsvalue) list"
  | JBigInt int
  | JSymbol string

type_synonym props = "(string \<times> jsvalue) list"

text \<open>White space and line terminators removed by \<open>String.prototype.trim\<close>, among the
  code units below 256: TAB, LF, VT, FF, CR, SPACE and NO-BREAK SPACE.\<close>

definition js_whitespace :: "char \<Rightarrow> bool" where
  "js_whitespace c = (of_char c \<in> {9, 10, 11, 12, 13, 32, 160 :: nat})"

definition js_trim :: "string \<Rightarrow> string" where
  "js_trim s = rev (dropWhile js_whitespace (rev (dropWhile js_whitespace s)))"

text \<open>Decimal numerals, for array indices used as property names and for
  \<open>String(bigint)\<close>.\<close>

definition digit_char :: "nat \<Rightarrow> char" where
  "digit_char d = ''0123456789'' ! (d mod 10)"

fun show_nat :: "nat \<Rightarrow> string" where
  "show_nat n = (if n < 10 then [digit_char n] else show_nat (n div 10) @ [digit_char n])"

declare show_nat.simps [simp del]

definition show_int :: "int \<Rightarrow> string" where
  "show_int i = (if i < 0 then CHR ''-'' # show_nat (nat (- i)) else show_nat (nat i))"

text \<open>\<open>String(value)\<close>, given for the values that can reach the last branch of the
  normalizer and for the primitives whose rendering is a fixed text.  The rendering
  of numbers, dates, arrays and objects is not needed and is left unspecified.\<close>

fun js_String :: "jsvalue \<Rightarrow> string" where
  "js_String (JBigInt i) = show_int i"
| "js_String (JSymbol d) = ''Symbol('' @ d @ '')''"
| "js_String (JStr s) = s"
| "js_String (JBool b) = (if b then ''true'' else ''false'')"
| "js_String JNull = ''null''"
| "js_String JUndefined = ''undefined''"

text \<open>\<open>!value\<close> is the negation of \<open>js_truthy\<close>; \<open>typeof value\<close> is \<open>js_typeof\<close>.\<close>

fun js_truthy :: "jsvalue \<Rightarrow> bool" where
  "js_truthy JUndefined = False"
| "js_truthy JNull = False"
| "js_truthy (JBool b) = b"
| "js_truthy (JNum x) = (x \<noteq> 0)"
| "js_truthy (JStr s) = (s \<noteq> [])"
| "js_truthy (JBigInt i) = (i \<noteq> 0)"
| "js_truthy _ = True"

fun js_typeof :: "jsvalue \<Rightarrow> string" where
  "js_typeof JUndefined = ''undefined''"
| "js_typeof JNull = ''object''"
| "js_typeof (JBool b) = ''boolean''"
| "js_typeof (JNum x) = ''number''"
| "js_typeof (JStr s) = ''string''"
| "js_typeof (JDate t) = ''object''"
| "js_typeof (JArr xs) = ''object''"
| "js_typeof (JObj ps) = ''object''"
| "js_typeof (JBigInt i) = ''bigint''"
| "js_typeof (JSymbol d) = ''symbol''"

text \<open>\<open>Object.entries(value)\<close>: the own enumerable properties.  An array has its
  indices, a string its code units, a date and a primitive have none.\<close>

definition indexed :: "jsvalue list \<Rightarrow> props" where
  "indexed xs = zip (map show_nat [0..<length xs]) xs"

fun js_entries :: "jsvalue \<Rightarrow> props" where
  "js_entries (JObj ps) = ps"
| "js_entries (JArr xs) = indexed xs"
| "js_entries (JStr s) = indexed (map (\<lambda>c. JStr [c]) s)"
| "js_entries _ = []"

text \<open>Defining an own property, as an object literal and its spread do: an existing
  property keeps its place, a new one goes last.\<close>

fun js_set :: "props \<Rightarrow> string \<Rightarrow> jsvalue \<Rightarrow> props" where
  "js_set [] k v = [(k, v)]"
| "js_set ((k', v') # ps) k v = (if k' = k then (k, v) # ps else (k', v') # js_set ps k v)"

text \<open>The assignment \<open>obj[key] = value\<close> on an object made by \<open>{}\<close>.  The name
  \<open>__proto__\<close> is an accessor of \<open>Object.prototype\<close>: assigning to it runs the setter,
  which replaces the prototype of the object when the value is an object and does
  nothing otherwise; in neither case does the object get an own property.  Every other
  name defines the property.\<close>

definition js_assign :: "props \<Rightarrow> string \<Rightarrow> jsvalue \<Rightarrow> props" where
  "js_assign ps k v = (if k = ''__proto__'' then ps else js_set ps k v)"

text \<open>The order in which the own properties of an object are enumerated: the names
  that are array indices (decimal numerals without a leading zero, below \<open>2^32 - 1\<close>)
  first, in ascending order, then the other names in the order of their creation.\<close>

definition digits_value :: "string \<Rightarrow> int" where
  "digits_value k = foldl (\<lambda>n c. 10 * n + (of_char c - 48)) 0 k"

definition array_index :: "string \<Rightarrow> int option" where
  "array_index k =
     (if k \<noteq> [] \<and> list_all (\<lambda>c. 48 \<le> (of_char c :: int) \<and> (of_char c :: int) \<le> 57) k \<and>
         (length k = 1 \<or> hd k \<noteq> CHR ''0'') \<and> digits_value k < 4294967295
      then Some (digits_value k) else None)"

definition enumeration_order :: "props \<Rightarrow> props" where
  "enumeration_order ps =
     sort_key (\<lambda>(k, v). case array_index k of Some n \<Rightarrow> n | None \<Rightarrow> 0)
              (filter (\<lambda>(k, v). array_index k \<noteq> None) ps)
     @ filter (\<lambda>(k, v). array_index k = None) ps"

text \<open>\<open>obj.hasOwnProperty(key)\<close> and the own-property read behind \<open>obj[key]\<close>.\<close>

definition hasOwnProperty :: "props \<Rightarrow> string \<Rightarrow> bool" where
  "hasOwnProperty ps k = (k \<in> set (map fst ps))"

definition own_get :: "props \<Rightarrow> string \<Rightarrow> jsvalue" where
  "own_get ps k = (case map_of ps k of None \<Rightarrow> JUndefined | Some v \<Rightarrow> v)"

section \<open>Errors\<close>

text \<open>
  The library throws plain \<open>Error\<close> objects told apart by their message; the
  constructors name them after the specification's taxonomy:
  \<^item> \<open>DataFileNotFoundError f\<close>: \<open>Data file not found: f\<close>;
  \<^item> \<open>InvalidJsonError f\<close>: \<open>Invalid JSON in data file: f\<close>;
  \<^item> \<open>InvalidDataShapeError\<close>: \<open>Data must be an array. Got: ...\<close>;
  \<^item> \<open>InvalidRecordError i\<close>: \<open>Invalid item at index i: must be an object\<close>;
  \<^item> \<open>InvalidConfigError\<close>: \<open>Batch size must be greater than 0\<close>;
  \<^item> \<open>DatabaseOperationError m\<close>: the rejection of a bulk insert or delete, rethrown;
  \<^item> \<open>FileSystemError c\<close>: a read failure other than \<open>ENOENT\<close>, rethrown;
  \<^item> \<open>TypeError\<close>: the runtime's own error on a property read of null or undefined,
    or a call of something that is not a function.
\<close>

datatype error =
    DataFileNotFoundError string
  | InvalidJsonError string
  | InvalidDataShapeError
  | InvalidRecordError nat
  | InvalidConfigError
  | DatabaseOperationError string
  | FileSystemError string
  | TypeError

section \<open>The record normalizer (\<open>DataProcessor.processGeneric\<close>)\<close>

text \<open>The rule for one value, branch by branch as in the source; \<open>None\<close> means the
  field is skipped.\<close>

fun cleanValue :: "jsvalue \<Rightarrow> jsvalue option" where
  "cleanValue JNull = None"
| "cleanValue JUndefined = None"
| "cleanValue (JStr s) =
     (let cleaned = js_trim s in if length cleaned > 0 then Some (JStr cleaned) else None)"
| "cleanValue (JNum x) = Some (JNum x)"
| "cleanValue (JBool b) = Some (JBool b)"
| "cleanValue (JDate t) = Some (JDate t)"
| "cleanValue (JArr xs) = Some (JArr xs)"
| "cleanValue (JObj ps) = Some (JObj ps)"
| "cleanValue v = Some (JStr (js_String v))"

text \<open>The body of the \<open>forEach\<close> over \<open>Object.entries(item)\<close>.\<close>

fun processField :: "string \<times> jsvalue \<Rightarrow> props \<Rightarrow> props" where
  "processField (key, val) processed =
     (case cleanValue val of None \<Rightarrow> processed | Some c \<Rightarrow> js_assign processed key c)"

definition processGeneric :: "jsvalue \<Rightarrow> nat \<Rightarrow> error + jsvalue" where
  "processGeneric item index =
     (if \<not> js_truthy item \<or> js_typeof item \<noteq> ''object''
      then Inl (InvalidRecordError index)
      else Inr (JObj (fold processField (js_entries item) [])))"

text \<open>The instance method passes index 0.\<close>

definition processGeneric_instance :: "jsvalue \<Rightarrow> error + jsvalue" where
  "processGeneric_instance item = processGeneric item 0"

section \<open>Configuration and the outside world\<close>

text \<open>
  The value returned by \<open>SeederConfig.getEntityConfig(entityType, customConfig)\<close>: the
  auto-discovered settings overridden by the caller's.  \<open>validFields\<close> and
  \<open>uniqueFields\<close> are arrays of field names, or \<open>None\<close> when the caller's override is
  null or undefined; \<open>batchSize\<close> is an integer.
\<close>

record config =
  entityType :: string
  tableName :: string
  dataFile :: string
  batchSize :: int
  validFields :: "string list option"
  uniqueFields :: "string list option"
  requiredFields :: "string list"

text \<open>The result of \<open>fs.promises.readFile(path, "utf8")\<close>: the text, the rejection
  with code \<open>ENOENT\<close>, or a rejection with another code.\<close>

datatype fs_result = FileContent string | ENOENT | ReadFailure string

text \<open>The delete predicate \<open>{[Op.or]: [{f: {[Op.in]: values}}, ...]}\<close>, and the calls
  made on \<open>queryInterface\<close> with their arguments (an absent argument is \<open>None\<close>).\<close>

datatype predicate = Op_or "(string \<times> jsvalue list) list"

datatype dbcall =
    BulkInsert string "jsvalue list" "props option"
  | BulkDelete string "predicate option" "props option"

text \<open>
  What the code reaches outside itself: the file system, \<open>JSON.parse\<close> (\<open>None\<close> is its
  \<open>SyntaxError\<close>), the database behind \<open>queryInterface\<close>, and the clock.  The database
  answers a call knowing the calls issued before it: \<open>None\<close> accepts, \<open>Some m\<close> rejects
  with message \<open>m\<close>.  \<open>clock k\<close> is the instant read by the \<open>k\<close>-th evaluation of
  \<open>new Date()\<close> in a call.  Every operation below takes the list of calls issued so
  far and returns it extended.
\<close>

record env =
  readFile :: "string \<Rightarrow> fs_result"
  JSON_parse :: "string \<Rightarrow> jsvalue option"
  database :: "dbcall list \<Rightarrow> dbcall \<Rightarrow> string option"
  clock :: "nat \<Rightarrow> int"

type_synonym outcome = "(error + unit) \<times> dbcall list"

text \<open>\<open>Array.isArray(value)\<close>.\<close>

fun isArray :: "jsvalue \<Rightarrow> bool" where
  "isArray (JArr xs) = True"
| "isArray _ = False"

text \<open>\<open>array.slice(start, end)\<close>: a negative bound counts from the end, both bounds
  are clamped to the array, and the result is empty when they cross.\<close>

definition js_slice :: "'a list \<Rightarrow> int \<Rightarrow> int \<Rightarrow> 'a list" where
  "js_slice xs start fin =
     (let len = int (length xs);
          k = (if start < 0 then max (len + start) 0 else min start len);
          final = (if fin < 0 then max (len + fin) 0 else min fin len)
      in take (nat (final - k)) (drop (nat k) xs))"

text \<open>\<open>item[field]\<close>: a \<open>TypeError\<close> on null and undefined, the \<open>length\<close> of an array or
  a string, otherwise the own property or \<open>undefined\<close>.\<close>

fun js_get :: "jsvalue \<Rightarrow> string \<Rightarrow> error + jsvalue" where
  "js_get JNull field = Inl TypeError"
| "js_get JUndefined field = Inl TypeError"
| "js_get (JArr xs) field =
     Inr (if field = ''length'' then JNum (real (length xs)) else own_get (indexed xs) field)"
| "js_get (JStr s) field =
     Inr (if field = ''length'' then JNum (real (length s)) else own_get (js_entries (JStr s)) field)"
| "js_get item field = Inr (own_get (js_entries item) field)"

section \<open>The seeding orchestrator (\<open>SeederFactory\<close>)\<close>

subsection \<open>\<open>_loadDataFile\<close> and \<open>processData\<close>\<close>

definition loadDataFile :: "env \<Rightarrow> string \<Rightarrow> error + jsvalue" where
  "loadDataFile e file =
     (case readFile e file of
        ENOENT \<Rightarrow> Inl (DataFileNotFoundError file)
      | ReadFailure c \<Rightarrow> Inl (FileSystemError c)
      | FileContent fileContent \<Rightarrow>
          (case JSON_parse e fileContent of
             None \<Rightarrow> Inl (InvalidJsonError file)
           | Some v \<Rightarrow> Inr v))"

text \<open>The inner loop \<open>for (const field of config.validFields)\<close>, which assigns to
  \<open>filtered\<close> in the order of the configured names; the object it leaves is read in
  enumeration order.\<close>

definition filterFields :: "string list \<Rightarrow> props \<Rightarrow> props" where
  "filterFields fieldNames processed =
     enumeration_order
       (fold (\<lambda>field filtered.
                if hasOwnProperty processed field
                then js_assign filtered field (own_get processed field) else filtered)
             fieldNames [])"

text \<open>The loop \<open>for (const item of data)\<close>, with \<open>processedData\<close> as accumulator.  The
  test \<open>filterValidFields && config.validFields\<close> holds for every array, the empty one
  included: only null and undefined are falsy here.\<close>

fun processData_loop :: "config \<Rightarrow> bool \<Rightarrow> jsvalue list \<Rightarrow> jsvalue list \<Rightarrow> error + jsvalue list" where
  "processData_loop cfg filterValidFields [] processedData = Inr processedData"
| "processData_loop cfg filterValidFields (item # items) processedData =
     (case processGeneric_instance item of
        Inl err \<Rightarrow> Inl err
      | Inr processed \<Rightarrow>
          (case validFields cfg of
             Some fieldNames \<Rightarrow>
               if filterValidFields
               then processData_loop cfg filterValidFields items
                      (processedData @ [JObj (filterFields fieldNames (js_entries processed))])
               else processData_loop cfg filterValidFields items (processedData @ [processed])
           | None \<Rightarrow> processData_loop cfg filterValidFields items (processedData @ [processed])))"

definition processData :: "env \<Rightarrow> config \<Rightarrow> bool \<Rightarrow> error + jsvalue list" where
  "processData e cfg filterValidFields =
     (case loadDataFile e (dataFile cfg) of
        Inl err \<Rightarrow> Inl err
      | Inr data \<Rightarrow>
          (case data of
             JArr items \<Rightarrow> processData_loop cfg filterValidFields items []
           | _ \<Rightarrow> Inl InvalidDataShapeError))"

subsection \<open>\<open>bulkInsertInBatches\<close>\<close>

text \<open>The first loop, \<open>for (let i = 0; i < data.length; i += batchSize)\<close>, pushes
  slices onto \<open>batches\<close>.  It is written as it stands; \<open>None\<close> is a loop that never
  ends.\<close>

partial_function (option) make_batches ::
  "jsvalue list \<Rightarrow> int \<Rightarrow> int \<Rightarrow> jsvalue list list \<Rightarrow> jsvalue list list option" where
  "make_batches data bsize i batches =
     (if i < int (length data)
      then make_batches data bsize (i + bsize) (batches @ [js_slice data i (i + bsize)])
      else Some batches)"

declare make_batches.simps [code]

text \<open>The options object \<open>{ignoreDuplicates: false, ...options}\<close>.\<close>

definition insert_options :: "props \<Rightarrow> props" where
  "insert_options options =
     fold (\<lambda>(k, v) obj. js_set obj k v) options [(''ignoreDuplicates'', JBool False)]"

text \<open>The second loop awaits one \<open>bulkInsert\<close> per batch; a rejection is logged and
  rethrown.\<close>

fun bulkInsert_each :: "env \<Rightarrow> string \<Rightarrow> props \<Rightarrow> jsvalue list list \<Rightarrow> dbcall list \<Rightarrow> outcome" where
  "bulkInsert_each e table options [] calls = (Inr (), calls)"
| "bulkInsert_each e table options (batch # batches) calls =
     (let call = BulkInsert table batch (Some (insert_options options)) in
      case database e calls call of
        Some m \<Rightarrow> (Inl (DatabaseOperationError m), calls @ [call])
      | None \<Rightarrow> bulkInsert_each e table options batches (calls @ [call]))"

definition bulkInsertInBatches ::
  "env \<Rightarrow> string \<Rightarrow> jsvalue \<Rightarrow> int \<Rightarrow> props \<Rightarrow> dbcall list \<Rightarrow> outcome option" where
  "bulkInsertInBatches e table data bsize options calls =
     (case data of
        JArr items \<Rightarrow>
          if length items = 0 then Some (Inr (), calls)
          else if bsize \<le> 0 then Some (Inl InvalidConfigError, calls)
          else (case make_batches items bsize 0 [] of
                  None \<Rightarrow> None
                | Some batches \<Rightarrow> Some (bulkInsert_each e table options batches calls))
      | _ \<Rightarrow> Some (Inr (), calls))"

subsection \<open>\<open>addTimestamps\<close> and \<open>insertData\<close>\<close>

text \<open>\<open>{...item, createdAt: c, updatedAt: u}\<close>.\<close>

definition with_timestamps :: "jsvalue \<Rightarrow> jsvalue \<Rightarrow> jsvalue \<Rightarrow> jsvalue" where
  "with_timestamps item c u =
     JObj (js_set (js_set (js_entries item) ''createdAt'' c) ''updatedAt'' u)"

text \<open>The static helper reads the clock once, unless it is given a timestamp.\<close>

definition addTimestamps :: "env \<Rightarrow> jsvalue \<Rightarrow> int option \<Rightarrow> error + jsvalue list" where
  "addTimestamps e data timestamp =
     (case data of
        JArr items \<Rightarrow>
          (let now = (case timestamp of Some t \<Rightarrow> t | None \<Rightarrow> clock e 0)
           in Inr (map (\<lambda>item. with_timestamps item (JDate now) (JDate now)) items))
      | _ \<Rightarrow> Inl InvalidDataShapeError)"

text \<open>\<open>insertData\<close> evaluates \<open>new Date()\<close> twice for every record: the map callback
  run on the record at position \<open>j\<close> makes the readings \<open>2 * j\<close> and \<open>2 * j + 1\<close> of the
  call.\<close>

fun stamp :: "(nat \<Rightarrow> int) \<Rightarrow> nat \<Rightarrow> jsvalue list \<Rightarrow> jsvalue list" where
  "stamp clk k [] = []"
| "stamp clk k (item # items) =
     with_timestamps item (JDate (clk k)) (JDate (clk (k + 1))) # stamp clk (k + 2) items"

text \<open>The loop \<open>for (let i = 0; i < dataWithTimestamps.length; i += batchSize)\<close>, one
  awaited \<open>bulkInsert\<close> per turn, as it stands; \<open>None\<close> is a loop that never ends.\<close>

partial_function (option) insertData_loop ::
  "env \<Rightarrow> string \<Rightarrow> jsvalue list \<Rightarrow> int \<Rightarrow> int \<Rightarrow> dbcall list \<Rightarrow> outcome option" where
  "insertData_loop e table dataWithTimestamps bsize i calls =
     (if i < int (length dataWithTimestamps)
      then (let call = BulkInsert table (js_slice dataWithTimestamps i (i + bsize)) None in
            case database e calls call of
              Some m \<Rightarrow> Some (Inl (DatabaseOperationError m), calls @ [call])
            | None \<Rightarrow> insertData_loop e table dataWithTimestamps bsize (i + bsize) (calls @ [call]))
      else Some (Inr (), calls))"

declare insertData_loop.simps [code]

text \<open>Steps 3 and 4 of \<open>insertData\<close>: \<open>config.batchSize || 1000\<close>, then the loop.\<close>

definition insertData_batches ::
  "env \<Rightarrow> config \<Rightarrow> jsvalue list \<Rightarrow> dbcall list \<Rightarrow> outcome option" where
  "insertData_batches e cfg dataWithTimestamps calls =
     (let bsize = (if batchSize cfg = 0 then 1000 else batchSize cfg)
      in insertData_loop e (tableName cfg) dataWithTimestamps bsize 0 calls)"

definition insertData :: "env \<Rightarrow> config \<Rightarrow> jsvalue \<Rightarrow> dbcall list \<Rightarrow> outcome option" where
  "insertData e cfg processedData calls =
     (case processedData of
        JArr items \<Rightarrow> insertData_batches e cfg (stamp (clock e) 0 items) calls
      | _ \<Rightarrow> Some (Inl TypeError, calls))"

subsection \<open>\<open>removeData\<close>\<close>

text \<open>\<open>data.map(item => item[field]).filter(val => val != null)\<close>: the map stops with
  the \<open>TypeError\<close> of the first null element.\<close>

fun field_values :: "string \<Rightarrow> jsvalue list \<Rightarrow> error + jsvalue list" where
  "field_values field [] = Inr []"
| "field_values field (item # items) =
     (case js_get item field of
        Inl err \<Rightarrow> Inl err
      | Inr v \<Rightarrow>
          (case field_values field items of
             Inl err \<Rightarrow> Inl err
           | Inr vs \<Rightarrow> Inr (if v = JNull \<or> v = JUndefined then vs else v # vs)))"

text \<open>The loop \<open>for (const field of config.uniqueFields)\<close>, with \<open>conditions\<close> as
  accumulator.\<close>

fun build_conditions ::
  "string list \<Rightarrow> jsvalue list \<Rightarrow> (string \<times> jsvalue list) list \<Rightarrow> error + (string \<times> jsvalue list) list" where
  "build_conditions [] data conditions = Inr conditions"
| "build_conditions (field # fieldNames) data conditions =
     (case field_values field data of
        Inl err \<Rightarrow> Inl err
      | Inr vals \<Rightarrow>
          if length vals > 0
          then build_conditions fieldNames data (conditions @ [(field, vals)])
          else build_conditions fieldNames data conditions)"

text \<open>The inner \<open>try\<close> block, with the calls it issued.  \<open>True\<close>: the targeted delete
  was accepted and \<open>removeData\<close> returns.  \<open>False\<close>: control reaches the fallback, either
  because no predicate could be built or because the inner \<open>catch\<close> caught an error,
  whatever raised it.\<close>

definition targeted_removal :: "env \<Rightarrow> config \<Rightarrow> string list \<Rightarrow> dbcall list \<Rightarrow> bool \<times> dbcall list" where
  "targeted_removal e cfg fieldNames calls =
     (case loadDataFile e (dataFile cfg) of
        Inl fileError \<Rightarrow> (False, calls)
      | Inr data \<Rightarrow>
          (case data of
             JArr items \<Rightarrow>
               if length items > 0
               then (case build_conditions fieldNames items [] of
                       Inl fileError \<Rightarrow> (False, calls)
                     | Inr conditions \<Rightarrow>
                         if length conditions > 0
                         then (let call = BulkDelete (tableName cfg) (Some (Op_or conditions)) None in
                               case database e calls call of
                                 Some fileError \<Rightarrow> (False, calls @ [call])
                               | None \<Rightarrow> (True, calls @ [call]))
                         else (False, calls))
               else (False, calls)
           | _ \<Rightarrow> (False, calls)))"

text \<open>The fallback \<open>bulkDelete(config.tableName, null, {})\<close>; its rejection is rethrown.\<close>

definition remove_all :: "env \<Rightarrow> config \<Rightarrow> dbcall list \<Rightarrow> outcome" where
  "remove_all e cfg calls =
     (let call = BulkDelete (tableName cfg) None (Some []) in
      case database e calls call of
        Some m \<Rightarrow> (Inl (DatabaseOperationError m), calls @ [call])
      | None \<Rightarrow> (Inr (), calls @ [call]))"

definition removeData :: "env \<Rightarrow> config \<Rightarrow> dbcall list \<Rightarrow> outcome" where
  "removeData e cfg calls =
     (case uniqueFields cfg of
        Some fieldNames \<Rightarrow>
          if length fieldNames > 0
          then (case targeted_removal e cfg fieldNames calls of
                  (True, calls') \<Rightarrow> (Inr (), calls')
                | (False, calls') \<Rightarrow> remove_all e cfg calls')
          else remove_all e cfg calls
      | None \<Rightarrow> remove_all e cfg calls)"

subsection \<open>The seeder template\<close>

text \<open>\<open>up\<close> of \<open>templates/seeder-template.js\<close>: process with \<open>filterValidFields: true\<close>,
  return when nothing is left, insert otherwise; any error is logged and rethrown.
  \<open>down\<close> is \<open>removeData\<close>.\<close>

definition up :: "env \<Rightarrow> config \<Rightarrow> dbcall list \<Rightarrow> outcome option" where
  "up e cfg calls =
     (case processData e cfg True of
        Inl err \<Rightarrow> Some (Inl err, calls)
      | Inr processedData \<Rightarrow>
          if length processedData = 0 then Some (Inr (), calls)
          else insertData e cfg (JArr processedData) calls)"

definition down :: "env \<Rightarrow> config \<Rightarrow> dbcall list \<Rightarrow> outcome" where
  "down e cfg calls = removeData e cfg calls"

section \<open>Sample data\<close>

text \<open>A small world to run the operations in: five data files and the values
  \<open>JSON.parse\<close> gives for their texts, a database that accepts every call, and a clock
  that advances by one millisecond at every reading.\<close>

definition sample_readFile :: "string \<Rightarrow> fs_result" where
  \<open>sample_readFile path =
     (if path = ''data/users.json'' then FileContent ''[{"userName":"a","email":"a@x.com"}]''
      else if path = ''data/text.json'' then FileContent ''"not an array"''
      else if path = ''data/broken.json'' then FileContent ''[{''
      else if path = ''data/holes.json'' then FileContent ''[null,{"userName":"a"}]''
      else if path = ''data/proto.json'' then FileContent ''[{"__proto__":"abc","userName":"a"}]''
      else ENOENT)\<close>

definition sample_parse :: "string \<Rightarrow> jsvalue option" where
  \<open>sample_parse text =
     (if text = ''[{"userName":"a","email":"a@x.com"}]''
      then Some (JArr [JObj [(''userName'', JStr ''a''), (''email'', JStr ''a@x.com'')]])
      else if text = ''"not an array"'' then Some (JStr ''not an array'')
      else if text = ''[null,{"userName":"a"}]'' then Some (JArr [JNull, JObj [(''userName'', JStr ''a'')]])
      else if text = ''[{"__proto__":"abc","userName":"a"}]''
      then Some (JArr [JObj [(''__proto__'', JStr ''abc''), (''userName'', JStr ''a'')]])
      else None)\<close>

definition sample_env :: env where
  "sample_env = \<lparr> readFile = sample_readFile, JSON_parse = sample_parse,
     database = (\<lambda>calls call. None), clock = (\<lambda>k. 1000 + int k) \<rparr>"

text \<open>The configuration of the seeder template, with a batch size of 2, where no model
  file is found: auto-discovery returns the empty list of valid fields.\<close>

definition sample_config :: config where
  "sample_config = \<lparr> entityType = ''Users'', tableName = ''People'',
     dataFile = ''data/users.json'', batchSize = 2, validFields = Some [],
     uniqueFields = Some [''userName'', ''email''], requiredFields = [] \<rparr>"

text \<open>An example record with a value of every kind.\<close>

definition sample_record :: props where
  "sample_record =
     [(''userName'', JStr ''john''), (''email'', JStr '' j@x.com ''), (''nick'', JStr ''   ''),
      (''phone'', JNull), (''fax'', JUndefined), (''age'', JNum 42), (''active'', JBool True),
      (''born'', JDate 86400000), (''tags'', JArr [JStr '' a '', JNull]),
      (''address'', JObj [(''city'', JStr '' Rome ''), (''zip'', JNull)]),
      (''serial'', JBigInt (- 120)), (''token'', JSymbol ''t'')]"

text \<open>Variants of the sample world: a database that rejects an insert of no rows, a
  database that rejects every delete with a predicate, and a clock that stands still.\<close>

definition strict_env :: env where
  "strict_env = sample_env \<lparr> database :=
     (\<lambda>calls call. case call of BulkInsert table [] options \<Rightarrow> Some ''no rows'' | _ \<Rightarrow> None) \<rparr>"

definition refusing_env :: env where
  "refusing_env = sample_env \<lparr> database :=
     (\<lambda>calls call. case call of BulkDelete table (Some p) options \<Rightarrow> Some ''unknown column'' | _ \<Rightarrow> None) \<rparr>"

definition frozen_env :: env where
  "frozen_env = sample_env \<lparr> clock := (\<lambda>k. 1000) \<rparr>"

section \<open>Notions used in the statements\<close>

text \<open>
  The definitions of this section are not translations of the code.  They state,
  without its loops, what the loops are expected to compute: the fields a record keeps,
  the contiguous batches of a dataset, the sequential issue of calls.  The theorems
  compare the code with them.
\<close>

text \<open>The fields that the normalizer keeps, in the order of the input, and the records
  it leaves unchanged.\<close>

definition cleaned_fields :: "props \<Rightarrow> props" where
  "cleaned_fields ps =
     List.map_filter
       (\<lambda>(k, v). if k = ''__proto__'' then None else map_option (Pair k) (cleanValue v)) ps"

definition normal_form :: "props \<Rightarrow> bool" where
  "normal_form ps =
     (distinct (map fst ps) \<and> list_all (\<lambda>(k, v). k \<noteq> ''__proto__'' \<and> cleanValue v = Some v) ps)"

text \<open>Contiguous batches of size \<open>n\<close>, the last one possibly smaller.\<close>

function chunks :: "nat \<Rightarrow> 'a list \<Rightarrow> 'a list list" where
  "chunks n xs = (if n = 0 \<or> xs = [] then [] else take n xs # chunks n (drop n xs))"
  by pat_completeness auto
termination
  by (relation "measure (\<lambda>(n, xs). length xs)") auto

declare chunks.simps [simp del]

text \<open>Calls issued one after the other, each awaited; the first rejection ends the
  sequence and is the result.\<close>

fun issue_all :: "env \<Rightarrow> dbcall list \<Rightarrow> dbcall list \<Rightarrow> outcome" where
  "issue_all e [] calls = (Inr (), calls)"
| "issue_all e (c # cs) calls =
     (case database e calls c of
        Some m \<Rightarrow> (Inl (DatabaseOperationError m), calls @ [c])
      | None \<Rightarrow> issue_all e cs (calls @ [c]))"

text \<open>A call without the options argument of a bulk insert.\<close>

fun strip_options :: "dbcall \<Rightarrow> dbcall" where
  "strip_options (BulkInsert table batch options) = BulkInsert table batch None"
| "strip_options call = call"

text \<open>Rewrite rules that run the operations on the sample data.\<close>

lemmas sample_defs = sample_env_def sample_config_def sample_readFile_def sample_parse_def

lemmas run_defs = sample_defs chunks.simps insertData_def insertData_batches_def insertData_loop.simps
  bulkInsertInBatches_def make_batches.simps js_slice_def with_timestamps_def insert_options_def Let_def

section \<open>Properties of the normalizer\<close>

lemma js_trim_head: "js_trim s \<noteq> [] \<Longrightarrow> \<not> js_whitespace (hd (js_trim s))"
proof -
  assume ne: "js_trim s \<noteq> []"
  define t where "t = dropWhile js_whitespace s"
  obtain k where k: "dropWhile js_whitespace (rev t) = drop k (rev t)"
    by (metis dropWhile_eq_drop)
  have tr: "js_trim s = take (length t - k) t"
    by (simp add: js_trim_def t_def [symmetric] k rev_drop)
  with ne have "t \<noteq> []" "0 < length t - k" by auto
  then have "hd (js_trim s) = hd t" by (simp add: tr hd_take)
  moreover have "\<not> js_whitespace (hd t)"
    using \<open>t \<noteq> []\<close> unfolding t_def by (rule hd_dropWhile)
  ultimately show ?thesis by simp
qed

lemma dropWhile_fixed: "xs = [] \<or> \<not> P (hd xs) \<Longrightarrow> dropWhile P xs = xs"
  by (cases xs) auto

lemma trim_fixed:
  assumes "s = [] \<or> (\<not> js_whitespace (hd s) \<and> \<not> js_whitespace (last s))"
  shows "js_trim s = s"
proof (cases "s = []")
  case True
  then show ?thesis by (simp add: js_trim_def)
next
  case False
  with assms have h: "\<not> js_whitespace (hd s)" and l: "\<not> js_whitespace (last s)" by auto
  have "dropWhile js_whitespace s = s" using h by (simp add: dropWhile_fixed)
  moreover have "dropWhile js_whitespace (rev s) = rev s"
    using False l by (intro dropWhile_fixed) (simp add: hd_rev)
  ultimately show ?thesis by (simp add: js_trim_def)
qed

lemma js_trim_last: "js_trim s \<noteq> [] \<Longrightarrow> \<not> js_whitespace (last (js_trim s))"
proof -
  assume ne: "js_trim s \<noteq> []"
  let ?u = "dropWhile js_whitespace (rev (dropWhile js_whitespace s))"
  from ne have "?u \<noteq> []" by (simp add: js_trim_def)
  then have "\<not> js_whitespace (hd ?u)" by (rule hd_dropWhile)
  with \<open>?u \<noteq> []\<close> show ?thesis by (simp add: js_trim_def last_rev)
qed

lemma js_trim_idem: "js_trim (js_trim s) = js_trim s"
  by (rule trim_fixed) (use js_trim_head js_trim_last in blast)

lemma digit_char_not_whitespace: "\<not> js_whitespace (digit_char d)"
proof -
  have "\<forall>c \<in> set ''0123456789''. \<not> js_whitespace c"
    by (simp add: js_whitespace_def)
  moreover have "digit_char d \<in> set ''0123456789''"
    unfolding digit_char_def by (rule nth_mem) simp
  ultimately show ?thesis by blast
qed

lemma show_nat_digits: "show_nat n \<noteq> [] \<and> (\<forall>c \<in> set (show_nat n). \<not> js_whitespace c)"
proof (induction n rule: show_nat.induct)
  case (1 n)
  show ?case
  proof (cases "n < 10")
    case True
    then show ?thesis
      by (subst (1 2) show_nat.simps) (simp add: digit_char_not_whitespace)
  next
    case False
    with "1" show ?thesis
      by (subst (1 2) show_nat.simps) (simp add: digit_char_not_whitespace)
  qed
qed

lemma show_int_trimmed: "show_int i \<noteq> [] \<and> js_trim (show_int i) = show_int i"
proof -
  have ne: "show_nat n \<noteq> []" for n using show_nat_digits by blast
  have l: "\<not> js_whitespace (last (show_nat n))" for n
    using show_nat_digits [of n] last_in_set by blast
  have h: "\<not> js_whitespace (hd (show_nat n))" for n
    using show_nat_digits [of n] hd_in_set by blast
  have m: "\<not> js_whitespace CHR ''-''" by (simp add: js_whitespace_def)
  show ?thesis
    by (intro conjI trim_fixed) (simp_all add: show_int_def ne l h m)
qed

lemma symbol_trimmed:
  "js_trim (''Symbol('' @ d @ '')'') = ''Symbol('' @ d @ '')''"
  by (rule trim_fixed) (simp add: js_whitespace_def)

lemma cleanValue_fixed: "cleanValue v = Some c \<Longrightarrow> cleanValue c = Some c"
proof (cases v)
  case (JStr s)
  assume "cleanValue v = Some c"
  with JStr have "c = JStr (js_trim s)" "js_trim s \<noteq> []"
    by (auto simp: Let_def split: if_splits)
  then show ?thesis by (simp add: js_trim_idem)
next
  case (JBigInt i)
  assume "cleanValue v = Some c"
  with JBigInt show ?thesis using show_int_trimmed [of i] by auto
next
  case (JSymbol d)
  assume "cleanValue v = Some c"
  with JSymbol show ?thesis using symbol_trimmed [of d] by auto
qed auto

text \<open>A new name is appended; on distinct names the loop is a filtering map that
  keeps the order of the fields and leaves out the name \<open>__proto__\<close>.\<close>

lemma js_set_fresh: "k \<notin> fst ` set ps \<Longrightarrow> js_set ps k v = ps @ [(k, v)]"
  by (induction ps) auto

lemma js_set_keys: "fst ` set (js_set ps k v) = insert k (fst ` set ps)"
proof (induction ps)
  case Nil
  then show ?case by simp
next
  case (Cons p ps)
  then show ?case by (cases p) (simp add: insert_commute)
qed

lemma js_set_distinct: "distinct (map fst ps) \<Longrightarrow> distinct (map fst (js_set ps k v))"
proof (induction ps)
  case Nil
  then show ?case by simp
next
  case (Cons p ps)
  obtain k' v' where p: "p = (k', v')" by (cases p)
  from Cons.prems p have "k' \<notin> fst ` set ps" "distinct (map fst ps)" by auto
  with Cons.IH p show ?case
    using js_set_keys [of ps k v] by (cases "k' = k") auto
qed

lemma cleaned_fields_simps:
  "cleaned_fields [] = []"
  "cleaned_fields ((k, v) # ps) =
     (if k = ''__proto__'' then cleaned_fields ps
      else case cleanValue v of None \<Rightarrow> cleaned_fields ps | Some c \<Rightarrow> (k, c) # cleaned_fields ps)"
  by (simp_all add: cleaned_fields_def List.map_filter_simps split: option.splits)

lemma cleaned_fields_keys:
  "fst ` set (cleaned_fields ps) \<subseteq> fst ` set ps \<and> ''__proto__'' \<notin> fst ` set (cleaned_fields ps)"
proof (induction ps)
  case Nil
  then show ?case by (simp add: cleaned_fields_simps)
next
  case (Cons p ps)
  obtain k v where p: "p = (k, v)" by (cases p)
  from Cons show ?case unfolding p
    by (cases "cleanValue v") (auto simp: cleaned_fields_simps)
qed

lemma fold_processField:
  "distinct (map fst (acc @ ps)) \<Longrightarrow> fold processField ps acc = acc @ cleaned_fields ps"
proof (induction ps arbitrary: acc)
  case Nil
  then show ?case by (simp add: cleaned_fields_simps)
next
  case (Cons p ps)
  obtain k v where p: "p = (k, v)" by (cases p)
  from Cons.prems p have rest: "distinct (map fst (acc @ ps))" by auto
  show ?case
  proof (cases "cleanValue v = None \<or> k = ''__proto__''")
    case True
    then have "processField p acc = acc" "cleaned_fields (p # ps) = cleaned_fields ps"
      unfolding p by (auto simp: cleaned_fields_simps js_assign_def split: option.splits)
    with Cons.IH [OF rest] show ?thesis by simp
  next
    case False
    then obtain c where c: "cleanValue v = Some c" and k: "k \<noteq> ''__proto__''" by auto
    from Cons.prems p have fresh: "k \<notin> fst ` set acc" by auto
    from Cons.prems p have "distinct (map fst ((acc @ [(k, c)]) @ ps))" by auto
    from Cons.IH [OF this] c k p fresh show ?thesis
      by (simp add: cleaned_fields_simps js_set_fresh js_assign_def)
  qed
qed

lemma map_of_cleaned_fields:
  "distinct (map fst ps) \<Longrightarrow>
   map_of (cleaned_fields ps) k =
     (if k = ''__proto__'' then None else Option.bind (map_of ps k) cleanValue)"
proof (induction ps)
  case Nil
  then show ?case by (simp add: cleaned_fields_simps)
next
  case (Cons p ps)
  obtain k' v where p: "p = (k', v)" by (cases p)
  from Cons.prems p have notin: "k' \<notin> fst ` set ps" by auto
  then have a: "map_of ps k' = None" by (simp add: map_of_eq_None_iff)
  have "k' \<notin> fst ` set (cleaned_fields ps)"
    using notin cleaned_fields_keys [of ps] by blast
  then have b: "map_of (cleaned_fields ps) k' = None" by (simp add: map_of_eq_None_iff)
  from Cons.prems have IH: "map_of (cleaned_fields ps) k =
      (if k = ''__proto__'' then None else Option.bind (map_of ps k) cleanValue)"
    by (intro Cons.IH) simp
  have np: "map_of (cleaned_fields qs) ''__proto__'' = None" for qs
    using cleaned_fields_keys [of qs] by (simp add: map_of_eq_None_iff)
  show ?case
  proof (cases "k = k'")
    case True
    then show ?thesis using a b p np
      by (simp add: cleaned_fields_simps split: option.splits)
  next
    case False
    then show ?thesis using IH p np
      by (simp add: cleaned_fields_simps split: option.splits)
  qed
qed

lemma cleaned_fields_distinct:
  "distinct (map fst ps) \<Longrightarrow> distinct (map fst (cleaned_fields ps))"
proof (induction ps)
  case Nil
  then show ?case by (simp add: cleaned_fields_simps)
next
  case (Cons p ps)
  obtain k v where p: "p = (k, v)" by (cases p)
  from Cons.prems p have "k \<notin> fst ` set (cleaned_fields ps)"
    using cleaned_fields_keys [of ps] by auto
  with Cons p show ?case
    by (cases "cleanValue v") (auto simp: cleaned_fields_simps)
qed

lemma processGeneric_accepted:
  assumes "js_truthy item" "js_typeof item = ''object''"
    and "distinct (map fst (js_entries item))"
  shows "processGeneric item i = Inr (JObj (cleaned_fields (js_entries item)))"
  using assms fold_processField [of "[]" "js_entries item"] by (simp add: processGeneric_def)

lemma cleanValue_dropped:
  "cleanValue v = None \<longleftrightarrow> v = JNull \<or> v = JUndefined \<or> (\<exists>s. v = JStr s \<and> js_trim s = [])"
  by (cases v) (auto simp: Let_def)

lemma cleanValue_passthrough:
  "js_typeof v = ''number'' \<or> js_typeof v = ''boolean'' \<or> (js_typeof v = ''object'' \<and> v \<noteq> JNull)
   \<Longrightarrow> cleanValue v = Some v"
  by (cases v) auto

lemma cleanValue_other:
  "js_typeof v = ''bigint'' \<or> js_typeof v = ''symbol'' \<Longrightarrow> cleanValue v = Some (JStr (js_String v))"
  by (cases v) auto

lemma js_set_subset: "set (js_set ps k v) \<subseteq> insert (k, v) (set ps)"
  by (induction ps) (auto split: if_splits)

lemma js_assign_normal_form:
  assumes "normal_form ps" "cleanValue c = Some c"
  shows "normal_form (js_assign ps k c)"
proof (cases "k = ''__proto__''")
  case True
  with assms(1) show ?thesis by (simp add: js_assign_def)
next
  case False
  with assms js_set_subset [of ps k c] js_set_distinct [of ps k c]
  have "normal_form (js_set ps k c)"
    unfolding normal_form_def list_all_iff by blast
  with False show ?thesis by (simp add: js_assign_def)
qed

lemma fold_processField_normal_form:
  "normal_form acc \<Longrightarrow> normal_form (fold processField ps acc)"
proof (induction ps arbitrary: acc)
  case Nil
  then show ?case by simp
next
  case (Cons p ps)
  obtain k v where p: "p = (k, v)" by (cases p)
  show ?case
  proof (cases "cleanValue v")
    case None
    with Cons p show ?thesis by simp
  next
    case (Some c)
    then have "cleanValue c = Some c" by (rule cleanValue_fixed)
    with Cons.prems have "normal_form (js_assign acc k c)" by (rule js_assign_normal_form)
    from Cons.IH [OF this] Some p show ?thesis by simp
  qed
qed

lemma cleaned_fields_normal_form:
  "list_all (\<lambda>(k, v). k \<noteq> ''__proto__'' \<and> cleanValue v = Some v) ps \<Longrightarrow> cleaned_fields ps = ps"
  by (induction ps) (auto simp: cleaned_fields_simps)

lemma normal_form_values:
  assumes "normal_form ps" "(k, v) \<in> set ps"
  shows "v \<noteq> JNull \<and> v \<noteq> JUndefined \<and> (\<forall>s. v = JStr s \<longrightarrow> s \<noteq> [] \<and> js_trim s = s)"
proof -
  from assms have "cleanValue v = Some v" by (auto simp: normal_form_def list_all_iff)
  then show ?thesis by (cases v) (auto simp: Let_def split: if_splits)
qed

section \<open>Claims about the normalizer\<close>

text \<open>For every field name but \<open>__proto__\<close> the normalizer follows the rules of the
  specification: a field is kept exactly when its value is neither null nor undefined
  nor a string that is empty after trimming; a kept string is trimmed; a number, a
  boolean, a date, an array or a nested object is kept as it is; a value of any other
  type is replaced by its string representation.\<close>

lemma processGeneric_ordinary_fields:
  assumes "js_truthy item" and "js_typeof item = ''object''"
    and "distinct (map fst (js_entries item))"
    and "''__proto__'' \<notin> fst ` set (js_entries item)"
  shows "\<exists>out. processGeneric item i = Inr (JObj out) \<and> distinct (map fst out) \<and>
           fst ` set out =
             {k. \<exists>v. map_of (js_entries item) k = Some v \<and> v \<noteq> JNull \<and> v \<noteq> JUndefined \<and>
                      (\<forall>s. v = JStr s \<longrightarrow> js_trim s \<noteq> [])} \<and>
           (\<forall>k s. map_of (js_entries item) k = Some (JStr s) \<and> js_trim s \<noteq> []
                    \<longrightarrow> map_of out k = Some (JStr (js_trim s))) \<and>
           (\<forall>k v. map_of (js_entries item) k = Some v \<and>
                    (js_typeof v = ''number'' \<or> js_typeof v = ''boolean'' \<or>
                     (js_typeof v = ''object'' \<and> v \<noteq> JNull))
                    \<longrightarrow> map_of out k = Some v) \<and>
           (\<forall>k v. map_of (js_entries item) k = Some v \<and>
                    (js_typeof v = ''bigint'' \<or> js_typeof v = ''symbol'')
                    \<longrightarrow> map_of out k = Some (JStr (js_String v))) \<and>
           (\<forall>k v. map_of (js_entries item) k = Some v \<and>
                    (v = JNull \<or> v = JUndefined \<or> (\<exists>s. v = JStr s \<and> js_trim s = []))
                    \<longrightarrow> map_of out k = None)"
proof -
  let ?ps = "js_entries item"
  let ?out = "cleaned_fields ?ps"
  have none: "map_of ?ps ''__proto__'' = None"
    using assms(4) by (simp add: map_of_eq_None_iff)
  have look: "map_of ?out k = Option.bind (map_of ?ps k) cleanValue" for k
    using map_of_cleaned_fields [OF assms(3), of k] none by (cases "k = ''__proto__''") simp_all
  have "fst ` set ?out = dom (map_of ?out)" by (simp add: dom_map_of_conv_image_fst)
  also have "\<dots> = {k. \<exists>v. map_of ?ps k = Some v \<and> cleanValue v \<noteq> None}"
    by (auto simp: dom_def look Option.bind_eq_Some_conv)
  also have "\<dots> = {k. \<exists>v. map_of ?ps k = Some v \<and> v \<noteq> JNull \<and> v \<noteq> JUndefined \<and>
                          (\<forall>s. v = JStr s \<longrightarrow> js_trim s \<noteq> [])}"
    by (simp add: cleanValue_dropped)
  finally have keys: "fst ` set ?out =
      {k. \<exists>v. map_of ?ps k = Some v \<and> v \<noteq> JNull \<and> v \<noteq> JUndefined \<and>
               (\<forall>s. v = JStr s \<longrightarrow> js_trim s \<noteq> [])}" .
  have strings: "map_of ?out k = Some (JStr (js_trim s))"
    if "map_of ?ps k = Some (JStr s) \<and> js_trim s \<noteq> []" for k s
    using that by (simp add: look)
  have kept: "map_of ?out k = Some v"
    if "map_of ?ps k = Some v \<and>
        (js_typeof v = ''number'' \<or> js_typeof v = ''boolean'' \<or> (js_typeof v = ''object'' \<and> v \<noteq> JNull))"
    for k v
    using that cleanValue_passthrough [of v] by (simp add: look)
  have other: "map_of ?out k = Some (JStr (js_String v))"
    if "map_of ?ps k = Some v \<and> (js_typeof v = ''bigint'' \<or> js_typeof v = ''symbol'')" for k v
    using that cleanValue_other [of v] by (simp add: look)
  have dropped: "map_of ?out k = None"
    if "map_of ?ps k = Some v \<and> (v = JNull \<or> v = JUndefined \<or> (\<exists>s. v = JStr s \<and> js_trim s = []))"
    for k v
    using that cleanValue_dropped [of v] by (simp add: look)
  have "processGeneric item i = Inr (JObj ?out)"
    using assms(1-3) by (rule processGeneric_accepted)
  moreover have "distinct (map fst ?out)"
    using assms(3) by (rule cleaned_fields_distinct)
  ultimately show ?thesis
    using keys strings kept other dropped by blast
qed

text \<open>
  C8.  The specification has the normalizer return, for every record that is a non-null
  object, exactly the fields whose value is neither null nor undefined nor a string
  that is empty after trimming.  The code copies a field with \<open>processed[key] = value\<close>,
  and for the field name \<open>__proto__\<close>, which \<open>JSON.parse\<close> makes an own property of the
  record, this assignment runs the prototype setter and adds no field: the record of
  the sample file \<open>data/proto.json\<close>, with the two non-empty strings \<open>__proto__\<close> and
  \<open>userName\<close>, comes back with \<open>userName\<close> alone.
\<close>

theorem processGeneric_drops_proto_field:
  "loadDataFile sample_env ''data/proto.json'' =
     Inr (JArr [JObj [(''__proto__'', JStr ''abc''), (''userName'', JStr ''a'')]]) \<and>
   processGeneric_instance (JObj [(''__proto__'', JStr ''abc''), (''userName'', JStr ''a'')]) =
     Inr (JObj [(''userName'', JStr ''a'')]) \<and>
   processData sample_env (sample_config \<lparr>dataFile := ''data/proto.json''\<rparr>) False =
     Inr [JObj [(''userName'', JStr ''a'')]]"
  by (simp add: processData_def loadDataFile_def sample_defs processGeneric_instance_def
      processGeneric_def js_assign_def js_trim_def js_whitespace_def)

text \<open>
  C9.  Normalization is idempotent: for an input that is a non-null object,
  \<open>processGeneric\<close> returns a record, and normalizing that record again returns the
  same record.  The record has no null or undefined field, and each of its strings is
  non-empty and already trimmed.
\<close>

theorem processGeneric_idempotent:
  assumes "js_truthy item" and "js_typeof item = ''object''"
  shows "\<exists>out. processGeneric item i = Inr (JObj out) \<and>
           processGeneric (JObj out) j = Inr (JObj out) \<and>
           (\<forall>(k, v) \<in> set out. v \<noteq> JNull \<and> v \<noteq> JUndefined \<and>
                                (\<forall>s. v = JStr s \<longrightarrow> s \<noteq> [] \<and> js_trim s = s))"
proof -
  let ?out = "fold processField (js_entries item) []"
  have nf: "normal_form ?out"
    by (rule fold_processField_normal_form) (simp add: normal_form_def)
  then have "cleaned_fields ?out = ?out"
    by (simp add: normal_form_def cleaned_fields_normal_form)
  moreover have "distinct (map fst (js_entries (JObj ?out)))"
    using nf by (simp add: normal_form_def)
  then have "processGeneric (JObj ?out) j = Inr (JObj (cleaned_fields ?out))"
    using processGeneric_accepted [of "JObj ?out" j] by simp
  ultimately have again: "processGeneric (JObj ?out) j = Inr (JObj ?out)" by simp
  have first: "processGeneric item i = Inr (JObj ?out)"
    using assms by (simp add: processGeneric_def)
  have "\<forall>(k, v) \<in> set ?out. v \<noteq> JNull \<and> v \<noteq> JUndefined \<and>
                             (\<forall>s. v = JStr s \<longrightarrow> s \<noteq> [] \<and> js_trim s = s)"
    using normal_form_values [OF nf] by blast
  with first again show ?thesis by blast
qed

theorem processGeneric_idempotent_witness:
  "js_truthy (JObj sample_record) \<and> js_typeof (JObj sample_record) = ''object'' \<and>
   (\<exists>out. processGeneric (JObj sample_record) 0 = Inr (JObj out) \<and>
          processGeneric (JObj out) 0 = Inr (JObj out) \<and>
          map_of out ''email'' = Some (JStr ''j@x.com''))"
proof -
  have pre: "js_truthy (JObj sample_record)" "js_typeof (JObj sample_record) = ''object''"
    by simp_all
  from processGeneric_idempotent [OF pre, of 0 0] obtain out where
    a: "processGeneric (JObj sample_record) 0 = Inr (JObj out)"
    and b: "processGeneric (JObj out) 0 = Inr (JObj out)" by blast
  have "processGeneric (JObj sample_record) 0 = Inr (JObj
       [(''userName'', JStr ''john''), (''email'', JStr ''j@x.com''),
        (''age'', JNum 42), (''active'', JBool True),
        (''born'', JDate 86400000), (''tags'', JArr [JStr '' a '', JNull]),
        (''address'', JObj [(''city'', JStr '' Rome ''), (''zip'', JNull)]),
        (''serial'', JStr ''-120''), (''token'', JStr ''Symbol(t)'')])"
    by (simp add: processGeneric_def sample_record_def js_assign_def js_trim_def js_whitespace_def
        show_int_def show_nat.simps digit_char_def)
  with a have "map_of out ''email'' = Some (JStr ''j@x.com'')" by auto
  with pre a b show ?thesis by blast
qed

section \<open>Claims about loading and processing\<close>

text \<open>With an empty list of valid fields and filtering requested, every record is
  projected onto no field.\<close>

lemma filterFields_none: "filterFields [] processed = []"
  by (simp add: filterFields_def enumeration_order_def)

lemma processData_loop_empty_list:
  "validFields cfg = Some [] \<Longrightarrow> processData_loop cfg True items acc = Inr result \<Longrightarrow>
   result = acc @ replicate (length items) (JObj [])"
proof (induction items arbitrary: acc)
  case Nil
  then show ?case by simp
next
  case (Cons item items)
  from Cons.prems obtain processed where
    "processData_loop cfg True items (acc @ [JObj []]) = Inr result"
    by (auto simp: filterFields_none split: sum.splits)
  from Cons.IH [OF Cons.prems(1) this] show ?case by (simp add: replicate_app_Cons_same)
qed

text \<open>
  C1.  The specification lets an empty \<open>validFields\<close> list mean that nothing is
  filtered, so that \<open>processData\<close> with \<open>filterValidFields\<close> enabled would return every
  normalized record with all its fields, as it does with \<open>filterValidFields\<close> disabled.
  The code tests \<open>config.validFields\<close> for truthiness, and an empty array is truthy: the
  record is projected onto no field at all.  For the sample entity, whose list of valid
  fields is empty, the one record of the data file comes back as the empty object when
  filtering is enabled, and with its two fields when it is disabled.
\<close>

theorem processData_empty_validFields:
  "validFields sample_config = Some [] \<and>
   processData sample_env sample_config True = Inr [JObj []] \<and>
   processData sample_env sample_config False =
     Inr [JObj [(''userName'', JStr ''a''), (''email'', JStr ''a@x.com'')]]"
  by (simp add: processData_def loadDataFile_def sample_defs processGeneric_instance_def
      processGeneric_def filterFields_none js_assign_def js_trim_def js_whitespace_def)

text \<open>
  C6.  \<open>processData\<close> fails with \<open>DataFileNotFoundError\<close> when the data file is absent,
  with \<open>InvalidJsonError\<close> when its text is not valid JSON, and with
  \<open>InvalidDataShapeError\<close> when the text parses to a value that is not an array.
  \<open>processData\<close> itself has no access to the database; the seeder that calls it (\<open>up\<close>)
  rethrows the error with the list of issued calls unchanged, so no database call is
  issued in any of the three cases.
\<close>

theorem processData_load_failures:
  "(readFile e (dataFile cfg) = ENOENT \<longrightarrow>
      processData e cfg flt = Inl (DataFileNotFoundError (dataFile cfg)) \<and>
      up e cfg calls = Some (Inl (DataFileNotFoundError (dataFile cfg)), calls)) \<and>
   (\<forall>content. readFile e (dataFile cfg) = FileContent content \<and> JSON_parse e content = None \<longrightarrow>
      processData e cfg flt = Inl (InvalidJsonError (dataFile cfg)) \<and>
      up e cfg calls = Some (Inl (InvalidJsonError (dataFile cfg)), calls)) \<and>
   (\<forall>content v. readFile e (dataFile cfg) = FileContent content \<and> JSON_parse e content = Some v \<and> \<not> isArray v \<longrightarrow>
      processData e cfg flt = Inl InvalidDataShapeError \<and>
      up e cfg calls = Some (Inl InvalidDataShapeError, calls))"
proof (intro conjI allI impI)
  fix content v
  assume "readFile e (dataFile cfg) = FileContent content \<and> JSON_parse e content = Some v \<and> \<not> isArray v"
  then have "\<And>b. processData e cfg b = Inl InvalidDataShapeError"
    by (cases v) (simp_all add: processData_def loadDataFile_def)
  then show "processData e cfg flt = Inl InvalidDataShapeError"
    "up e cfg calls = Some (Inl InvalidDataShapeError, calls)"
    by (simp_all add: up_def)
qed (simp_all add: processData_def loadDataFile_def up_def)


theorem processData_load_failures_witness:
  "readFile sample_env ''data/missing.json'' = ENOENT \<and>
   processData sample_env (sample_config \<lparr>dataFile := ''data/missing.json''\<rparr>) True =
     Inl (DataFileNotFoundError ''data/missing.json'') \<and>
   up sample_env (sample_config \<lparr>dataFile := ''data/missing.json''\<rparr>) [] =
     Some (Inl (DataFileNotFoundError ''data/missing.json''), []) \<and>
   readFile sample_env ''data/broken.json'' = FileContent ''[{'' \<and> JSON_parse sample_env ''[{'' = None \<and>
   processData sample_env (sample_config \<lparr>dataFile := ''data/broken.json''\<rparr>) True =
     Inl (InvalidJsonError ''data/broken.json'') \<and>
   (\<exists>content. readFile sample_env ''data/text.json'' = FileContent content \<and>
      JSON_parse sample_env content = Some (JStr ''not an array'')) \<and>
   \<not> isArray (JStr ''not an array'') \<and>
   processData sample_env (sample_config \<lparr>dataFile := ''data/text.json''\<rparr>) True =
     Inl InvalidDataShapeError \<and>
   up sample_env (sample_config \<lparr>dataFile := ''data/text.json''\<rparr>) [] =
     Some (Inl InvalidDataShapeError, [])"
proof -
  have a: "readFile sample_env ''data/missing.json'' = ENOENT"
    by (simp add: sample_defs)
  have b: "readFile sample_env ''data/broken.json'' = FileContent ''[{'' \<and> JSON_parse sample_env ''[{'' = None"
    by (simp add: sample_defs)
  obtain content where c: "readFile sample_env ''data/text.json'' = FileContent content \<and>
      JSON_parse sample_env content = Some (JStr ''not an array'') \<and> \<not> isArray (JStr ''not an array'')"
    by (simp add: sample_defs)
  note t1 = processData_load_failures [of sample_env "sample_config \<lparr>dataFile := ''data/missing.json''\<rparr>" True "[]"]
  note t2 = processData_load_failures [of sample_env "sample_config \<lparr>dataFile := ''data/broken.json''\<rparr>" True "[]"]
  note t3 = processData_load_failures [of sample_env "sample_config \<lparr>dataFile := ''data/text.json''\<rparr>" True "[]"]
  from t1 a have "processData sample_env (sample_config \<lparr>dataFile := ''data/missing.json''\<rparr>) True =
     Inl (DataFileNotFoundError ''data/missing.json'') \<and>
     up sample_env (sample_config \<lparr>dataFile := ''data/missing.json''\<rparr>) [] =
     Some (Inl (DataFileNotFoundError ''data/missing.json''), [])"
    by simp
  moreover from t2 b have "processData sample_env (sample_config \<lparr>dataFile := ''data/broken.json''\<rparr>) True =
     Inl (InvalidJsonError ''data/broken.json'')"
    by simp
  moreover from t3 c have "processData sample_env (sample_config \<lparr>dataFile := ''data/text.json''\<rparr>) True =
     Inl InvalidDataShapeError \<and>
     up sample_env (sample_config \<lparr>dataFile := ''data/text.json''\<rparr>) [] =
     Some (Inl InvalidDataShapeError, [])"
    by simp
  ultimately show ?thesis using a b c by blast
qed

section \<open>Batched inserts\<close>

subsection \<open>The loops compute the contiguous batches\<close>

lemma js_slice_batch:
  assumes "0 \<le> i" "i < int (length xs)" "0 < B"
  shows "js_slice xs i (i + B) = take (nat B) (drop (nat i) xs)"
proof -
  have "take (nat (min (i + B) (int (length xs)) - i)) (drop (nat i) xs) = take (nat B) (drop (nat i) xs)"
  proof (cases "i + B \<le> int (length xs)")
    case True
    then show ?thesis by (simp add: min_def)
  next
    case False
    then have "length (drop (nat i) xs) \<le> nat B" "length (drop (nat i) xs) \<le> nat (int (length xs) - i)"
      using assms by auto
    then show ?thesis using False by (simp add: min_def)
  qed
  then show ?thesis using assms by (simp add: js_slice_def Let_def min_def)
qed

lemma chunks_step:
  "0 < n \<Longrightarrow> k < length xs \<Longrightarrow> chunks n (drop k xs) = take n (drop k xs) # chunks n (drop (k + n) xs)"
  by (subst chunks.simps) (simp add: add.commute)

lemma chunks_done: "length xs \<le> k \<Longrightarrow> chunks n (drop k xs) = []"
  by (subst chunks.simps) simp

lemma make_batches_chunks:
  assumes "0 < B"
  shows "0 \<le> i \<Longrightarrow> make_batches xs B i acc = Some (acc @ chunks (nat B) (drop (nat i) xs))"
proof (induction "length xs - nat i" arbitrary: i acc rule: less_induct)
  case less
  show ?case
  proof (cases "i < int (length xs)")
    case True
    have "length xs - nat (i + B) < length xs - nat i" using True assms less.prems by linarith
    from less.hyps [OF this] less.prems assms
    have "make_batches xs B (i + B) (acc @ [js_slice xs i (i + B)]) =
          Some ((acc @ [js_slice xs i (i + B)]) @ chunks (nat B) (drop (nat (i + B)) xs))"
      by simp
    moreover have "nat (i + B) = nat i + nat B" using assms less.prems by linarith
    moreover have "chunks (nat B) (drop (nat i) xs) =
        take (nat B) (drop (nat i) xs) # chunks (nat B) (drop (nat i + nat B) xs)"
      using True assms less.prems by (intro chunks_step) auto
    ultimately show ?thesis using True assms less.prems
      by (subst make_batches.simps) (simp add: js_slice_batch)
  next
    case False
    then have "chunks (nat B) (drop (nat i) xs) = []" by (intro chunks_done) linarith
    with False show ?thesis by (subst make_batches.simps) simp
  qed
qed

lemma insertData_loop_chunks:
  assumes "0 < B"
  shows "0 \<le> i \<Longrightarrow> insertData_loop e table xs B i calls =
     Some (issue_all e (map (\<lambda>b. BulkInsert table b None) (chunks (nat B) (drop (nat i) xs))) calls)"
proof (induction "length xs - nat i" arbitrary: i calls rule: less_induct)
  case less
  show ?case
  proof (cases "i < int (length xs)")
    case True
    let ?call = "BulkInsert table (take (nat B) (drop (nat i) xs)) None"
    have "length xs - nat (i + B) < length xs - nat i" using True assms less.prems by linarith
    from less.hyps [OF this] less.prems assms
    have IH: "insertData_loop e table xs B (i + B) (calls @ [?call]) =
          Some (issue_all e (map (\<lambda>b. BulkInsert table b None) (chunks (nat B) (drop (nat (i + B)) xs))) (calls @ [?call]))"
      by simp
    have n: "nat (i + B) = nat i + nat B" using assms less.prems by linarith
    have c: "chunks (nat B) (drop (nat i) xs) =
        take (nat B) (drop (nat i) xs) # chunks (nat B) (drop (nat i + nat B) xs)"
      using True assms less.prems by (intro chunks_step) auto
    show ?thesis using True assms less.prems IH
      by (subst insertData_loop.simps) (simp add: js_slice_batch n c split: option.splits)
  next
    case False
    then have "chunks (nat B) (drop (nat i) xs) = []" by (intro chunks_done) linarith
    with False show ?thesis by (subst insertData_loop.simps) simp
  qed
qed

lemma bulkInsert_each_issue_all:
  "bulkInsert_each e table options batches calls =
   issue_all e (map (\<lambda>b. BulkInsert table b (Some (insert_options options))) batches) calls"
  by (induction batches arbitrary: calls) (auto simp: Let_def split: option.splits)

lemma issue_all_accepted:
  "\<forall>calls call. database e calls call = None \<Longrightarrow> issue_all e cs calls = (Inr (), calls @ cs)"
  by (induction cs arbitrary: calls) auto

lemma concat_chunks: "0 < n \<Longrightarrow> concat (chunks n xs) = xs"
  by (induction n xs rule: chunks.induct) (subst chunks.simps, simp)

lemma length_chunks: "0 < n \<Longrightarrow> length (chunks n xs) = (length xs + n - 1) div n"
proof (induction n xs rule: chunks.induct)
  case (1 n xs)
  show ?case
  proof (cases "xs = []")
    case True
    then show ?thesis using 1 by (subst chunks.simps) simp
  next
    case False
    then have "length (chunks n xs) = Suc ((length xs - n + n - 1) div n)"
      using 1 by (subst chunks.simps) simp
    also have "\<dots> = (length xs + n - 1) div n"
    proof (cases "n \<le> length xs")
      case True
      then have a: "length xs + n - 1 = (length xs - 1) + n" using 1 by simp
      have "(length xs - 1 + n) div n = Suc ((length xs - 1) div n)"
        using 1 by simp
      moreover have "length xs - n + n - 1 = length xs - 1" using True by simp
      ultimately show ?thesis using a by simp
    next
      case False
      from \<open>xs \<noteq> []\<close> have pos: "0 < length xs" by simp
      have "n * 1 \<le> length xs + n - 1"
        using False pos by linarith
      moreover have "length xs + n - 1 < n + n"
        using False pos by linarith
      then have "length xs + n - 1 < n * Suc 1" by simp
      ultimately have "(length xs + n - 1) div n = 1" by (rule div_nat_eqI)
      moreover have "(length xs - n + n - 1) div n = 0"
        using False 1 by simp
      ultimately show ?thesis by simp
    qed
    finally show ?thesis .
  qed
qed

lemma chunks_sizes:
  "0 < n \<Longrightarrow> k < length (chunks n xs) \<Longrightarrow> length (chunks n xs ! k) = min n (length xs - k * n)"
proof (induction n xs arbitrary: k rule: chunks.induct)
  case (1 n xs)
  show ?case
  proof (cases "xs = []")
    case True
    with 1 show ?thesis by (subst (asm) chunks.simps) simp
  next
    case False
    have unf: "chunks n xs = take n xs # chunks n (drop n xs)"
      using False 1 by (subst chunks.simps) simp
    show ?thesis
    proof (cases k)
      case 0
      then show ?thesis by (simp add: unf)
    next
      case (Suc k')
      with 1 False unf show ?thesis by (simp add: algebra_simps)
    qed
  qed
qed


lemma chunks_full:
  assumes "0 < n" "Suc k < length (chunks n xs)"
  shows "length (chunks n xs ! k) = n"
proof -
  let ?q = "(length xs + n - 1) div n"
  from assms have "Suc (Suc k) \<le> ?q" by (simp add: length_chunks)
  then have "Suc (Suc k) * n \<le> ?q * n" by (rule mult_le_mono1)
  also have "\<dots> \<le> length xs + n - 1" by simp
  finally have "k * n + n + n \<le> length xs + n - 1" by (simp add: algebra_simps)
  then have "n \<le> length xs - k * n" using assms(1) by linarith
  moreover have "length (chunks n xs ! k) = min n (length xs - k * n)"
    using assms by (intro chunks_sizes) auto
  ultimately show ?thesis by simp
qed

lemma chunks_last:
  "0 < n \<Longrightarrow> length xs mod n \<noteq> 0 \<Longrightarrow> length (last (chunks n xs)) = length xs mod n"
proof (induction n xs rule: chunks.induct)
  case (1 n xs)
  from 1 have ne: "xs \<noteq> []" by auto
  then have unf: "chunks n xs = take n xs # chunks n (drop n xs)"
    using 1 by (subst chunks.simps) simp
  show ?case
  proof (cases "length xs \<le> n")
    case True
    then have "chunks n (drop n xs) = []" by (subst chunks.simps) simp
    moreover from True 1 have "length xs < n" by (cases "length xs = n") auto
    ultimately show ?thesis by (simp add: unf)
  next
    case False
    then have "drop n xs \<noteq> []" by simp
    then have "chunks n (drop n xs) \<noteq> []" using 1 by (subst chunks.simps) simp
    moreover have m: "(length xs - n) mod n = length xs mod n"
      using False by (simp add: le_mod_geq)
    moreover have "length (last (chunks n (drop n xs))) = length (drop n xs) mod n"
      using 1 ne m by (intro "1.IH") auto
    ultimately show ?thesis by (simp add: unf)
  qed
qed

lemma bulkInsertInBatches_chunks:
  assumes "0 < B"
  shows "bulkInsertInBatches e table (JArr data) B options calls =
     Some (issue_all e (map (\<lambda>b. BulkInsert table b (Some (insert_options options)))
                            (chunks (nat B) data)) calls)"
proof (cases "data = []")
  case True
  then show ?thesis by (subst chunks.simps) (simp add: bulkInsertInBatches_def)
next
  case False
  with assms make_batches_chunks [of B 0 data "[]"] show ?thesis
    by (simp add: bulkInsertInBatches_def bulkInsert_each_issue_all)
qed

lemma insertData_batches_chunks:
  assumes "0 < batchSize cfg"
  shows "insertData_batches e cfg data calls =
     Some (issue_all e (map (\<lambda>b. BulkInsert (tableName cfg) b None)
                            (chunks (nat (batchSize cfg)) data)) calls)"
  using assms insertData_loop_chunks [of "batchSize cfg" 0 e "tableName cfg" data calls]
  by (simp add: insertData_batches_def)

lemma issue_all_strip:
  assumes "\<forall>calls call. database e calls call = database e (map strip_options calls) (strip_options call)"
    and "map strip_options cs = map strip_options cs'"
    and "map strip_options calls = map strip_options calls'"
  shows "map_prod id (map strip_options) (issue_all e cs calls) =
         map_prod id (map strip_options) (issue_all e cs' calls')"
  using assms(2,3)
proof (induction cs arbitrary: cs' calls calls')
  case Nil
  then show ?case by simp
next
  case (Cons c cs)
  then obtain c' cs'' where cs': "cs' = c' # cs''" by (cases cs') auto
  with Cons.prems have eq: "strip_options c = strip_options c'"
    "map strip_options cs = map strip_options cs''" by auto
  have d: "database e calls c = database e calls' c'"
    using assms(1) [rule_format, of calls c] assms(1) [rule_format, of calls' c'] eq Cons.prems(2)
    by simp
  have "map strip_options (calls @ [c]) = map strip_options (calls' @ [c'])"
    using eq Cons.prems(2) by simp
  from Cons.IH [OF eq(2) this] d cs' eq Cons.prems(2) show ?case
    by (simp split: option.splits)
qed

lemma length_stamp: "length (stamp clk k items) = length items"
  by (induction items arbitrary: k) auto

lemma nth_stamp:
  "j < length items \<Longrightarrow>
   stamp clk k items ! j =
     with_timestamps (items ! j) (JDate (clk (k + 2 * j))) (JDate (clk (k + 2 * j + 1)))"
proof (induction items arbitrary: k j)
  case Nil
  then show ?case by simp
next
  case (Cons item items)
  show ?case
  proof (cases j)
    case 0
    then show ?thesis by simp
  next
    case (Suc j')
    with Cons.prems have "j' < length items" by simp
    from Cons.IH [OF this, of "k + 2"] Suc show ?thesis by (simp add: algebra_simps)
  qed
qed

lemma map_of_js_set: "map_of (js_set ps k v) = (map_of ps)(k \<mapsto> v)"
  by (induction ps) (auto simp: fun_eq_iff)

lemma with_timestamps_fields:
  "own_get (js_entries (with_timestamps item c u)) ''createdAt'' = c \<and>
   own_get (js_entries (with_timestamps item c u)) ''updatedAt'' = u"
  by (simp add: with_timestamps_def own_get_def map_of_js_set)

subsection \<open>Claims\<close>

text \<open>
  C10.  Whatever the table name, the options and the batch size (zero and negative
  values included), \<open>bulkInsertInBatches\<close> called with an empty array, or with a value
  that is not an array, returns normally and issues no database call: the test for
  missing data comes before the validation of the batch size.
\<close>

theorem bulkInsertInBatches_without_data:
  "data = JArr [] \<or> \<not> isArray data \<Longrightarrow>
   bulkInsertInBatches e table data bsize options calls = Some (Inr (), calls)"
  by (cases data) (auto simp: bulkInsertInBatches_def)

theorem bulkInsertInBatches_without_data_witness:
  "bulkInsertInBatches sample_env ''People'' (JArr []) (- 5) [] [] = Some (Inr (), []) \<and>
   \<not> isArray JNull \<and>
   bulkInsertInBatches sample_env ''People'' JNull 0 [(''logging'', JBool False)] [] = Some (Inr (), [])"
  using bulkInsertInBatches_without_data [of "JArr []" sample_env "''People''" "- 5" "[]" "[]"]
    bulkInsertInBatches_without_data [of JNull sample_env "''People''" 0 "[(''logging'', JBool False)]" "[]"]
  by simp

text \<open>
  C2, as the code has it.  \<open>bulkInsertInBatches\<close> fails with \<open>InvalidConfigError\<close>, before
  any database call, when the batch size is not positive and the array of records is
  not empty; with an empty array it returns normally whatever the batch size.  In
  \<open>insertData\<close> a batch size of 0 stands for the default: the timestamped records are
  inserted in batches of 1000.
\<close>

theorem batch_size_validation:
  "(items \<noteq> [] \<and> bsize \<le> 0 \<longrightarrow>
      bulkInsertInBatches e table (JArr items) bsize options calls = Some (Inl InvalidConfigError, calls)) \<and>
   bulkInsertInBatches e table (JArr []) bsize options calls = Some (Inr (), calls) \<and>
   (batchSize cfg = 0 \<longrightarrow>
      insertData e cfg (JArr records) calls =
        Some (issue_all e (map (\<lambda>b. BulkInsert (tableName cfg) b None)
                               (chunks 1000 (stamp (clock e) 0 records))) calls))"
proof (intro conjI impI)
  assume "batchSize cfg = 0"
  then show "insertData e cfg (JArr records) calls =
        Some (issue_all e (map (\<lambda>b. BulkInsert (tableName cfg) b None)
                               (chunks 1000 (stamp (clock e) 0 records))) calls)"
    using insertData_loop_chunks [of 1000 0 e "tableName cfg" "stamp (clock e) 0 records" calls]
    by (simp add: insertData_def insertData_batches_def)
qed (auto simp: bulkInsertInBatches_def)

text \<open>The statement of the specification fails at batch size 0: with no records
  \<open>bulkInsertInBatches\<close> returns normally, and \<open>insertData\<close> inserts the record it is
  given.\<close>

theorem batch_size_validation_counterexample:
  "bulkInsertInBatches sample_env ''People'' (JArr []) 0 [] [] = Some (Inr (), []) \<and>
   insertData sample_env (sample_config \<lparr>batchSize := 0\<rparr>) (JArr [JObj []]) [] =
     Some (Inr (), [BulkInsert ''People''
        [JObj [(''createdAt'', JDate 1000), (''updatedAt'', JDate 1001)]] None])"
  by (simp add: run_defs)

theorem batch_size_validation_witness:
  "[JObj []] \<noteq> [] \<and> (- 5 :: int) \<le> 0 \<and>
   bulkInsertInBatches sample_env ''People'' (JArr [JObj []]) (- 5) [] [] =
     Some (Inl InvalidConfigError, []) \<and>
   batchSize (sample_config \<lparr>batchSize := 0\<rparr>) = 0 \<and>
   insertData sample_env (sample_config \<lparr>batchSize := 0\<rparr>) (JArr [JObj []]) [] =
     Some (Inr (), [BulkInsert ''People''
        [JObj [(''createdAt'', JDate 1000), (''updatedAt'', JDate 1001)]] None])"
  using batch_size_validation [of "[JObj []]" "- 5" sample_env "''People''" "[]" "[]"
      "sample_config \<lparr>batchSize := 0\<rparr>" "[JObj []]"]
  by (simp add: sample_defs chunks.simps with_timestamps_def)

text \<open>A negative batch size in \<open>insertData\<close> is outside the statement above.  The loop
  index then only decreases; on the sample database that rejects an insert of no rows,
  one record and the batch size \<open>-1\<close> give a call with no rows and its rejection.\<close>

lemma insertData_negative_batch_size:
  "insertData strict_env (sample_config \<lparr>batchSize := - 1\<rparr>) (JArr [JObj []]) [] =
     Some (Inl (DatabaseOperationError ''no rows''), [BulkInsert ''People'' [] None])"
  by (simp add: run_defs strict_env_def)

text \<open>
  C7.  For a batch size \<open>B \<ge> 1\<close> and a database that accepts every call,
  \<open>bulkInsertInBatches\<close> on a dataset and \<open>insertData\<close> on the timestamped dataset issue
  one bulk insert per batch, where the batches number \<open>ceil(N / B)\<close>, each but the last
  holds exactly \<open>B\<close> records, the last holds \<open>N mod B\<close> records when that is not zero, and
  their concatenation in the order of issue is the dataset.
\<close>

theorem batches_partition_dataset:
  assumes "1 \<le> B" and "batchSize cfg = B" and "\<forall>cs c. database e cs c = None"
  shows "(\<exists>bs. bulkInsertInBatches e table (JArr data) B options calls =
                 Some (Inr (), calls @ map (\<lambda>b. BulkInsert table b (Some (insert_options options))) bs) \<and>
               length bs = (length data + nat B - 1) div nat B \<and>
               (\<forall>k. Suc k < length bs \<longrightarrow> length (bs ! k) = nat B) \<and>
               (length data mod nat B \<noteq> 0 \<longrightarrow> length (last bs) = length data mod nat B) \<and>
               concat bs = data) \<and>
         (\<exists>bs. insertData e cfg (JArr items) calls =
                 Some (Inr (), calls @ map (\<lambda>b. BulkInsert (tableName cfg) b None) bs) \<and>
               length bs = (length items + nat B - 1) div nat B \<and>
               (\<forall>k. Suc k < length bs \<longrightarrow> length (bs ! k) = nat B) \<and>
               (length items mod nat B \<noteq> 0 \<longrightarrow> length (last bs) = length items mod nat B) \<and>
               concat bs = stamp (clock e) 0 items)"
proof -
  have pos: "0 < nat B" "0 < B" using assms(1) by simp_all
  have part: "length (chunks (nat B) xs) = (length xs + nat B - 1) div nat B \<and>
      (\<forall>k. Suc k < length (chunks (nat B) xs) \<longrightarrow> length (chunks (nat B) xs ! k) = nat B) \<and>
      (length xs mod nat B \<noteq> 0 \<longrightarrow> length (last (chunks (nat B) xs)) = length xs mod nat B) \<and>
      concat (chunks (nat B) xs) = xs" for xs :: "jsvalue list"
    using pos(1) by (simp add: length_chunks chunks_full chunks_last concat_chunks)
  have one: "bulkInsertInBatches e table (JArr data) B options calls =
      Some (Inr (), calls @ map (\<lambda>b. BulkInsert table b (Some (insert_options options))) (chunks (nat B) data))"
    using pos(2) assms(3) by (simp add: bulkInsertInBatches_chunks issue_all_accepted)
  have "0 < batchSize cfg" using pos(2) assms(2) by simp
  then have two: "insertData e cfg (JArr items) calls =
      Some (Inr (), calls @ map (\<lambda>b. BulkInsert (tableName cfg) b None)
                                 (chunks (nat B) (stamp (clock e) 0 items)))"
    using assms(2,3) by (simp add: insertData_def insertData_batches_chunks issue_all_accepted)
  from one part [of data] have first: "\<exists>bs. bulkInsertInBatches e table (JArr data) B options calls =
                 Some (Inr (), calls @ map (\<lambda>b. BulkInsert table b (Some (insert_options options))) bs) \<and>
               length bs = (length data + nat B - 1) div nat B \<and>
               (\<forall>k. Suc k < length bs \<longrightarrow> length (bs ! k) = nat B) \<and>
               (length data mod nat B \<noteq> 0 \<longrightarrow> length (last bs) = length data mod nat B) \<and>
               concat bs = data"
    by blast
  from two part [of "stamp (clock e) 0 items"]
  have second: "\<exists>bs. insertData e cfg (JArr items) calls =
                 Some (Inr (), calls @ map (\<lambda>b. BulkInsert (tableName cfg) b None) bs) \<and>
               length bs = (length items + nat B - 1) div nat B \<and>
               (\<forall>k. Suc k < length bs \<longrightarrow> length (bs ! k) = nat B) \<and>
               (length items mod nat B \<noteq> 0 \<longrightarrow> length (last bs) = length items mod nat B) \<and>
               concat bs = stamp (clock e) 0 items"
    unfolding length_stamp by blast
  from first second show ?thesis by (rule conjI)
qed

theorem batches_partition_dataset_witness:
  "(1::int) \<le> 2 \<and> batchSize sample_config = 2 \<and> (\<forall>cs c. database sample_env cs c = None) \<and>
   (\<exists>bs. bulkInsertInBatches sample_env ''People'' (JArr [JObj [], JObj [], JObj []]) 2 [] [] =
            Some (Inr (), map (\<lambda>b. BulkInsert ''People'' b (Some (insert_options []))) bs) \<and>
          length bs = 2 \<and> length (last bs) = 1 \<and> concat bs = [JObj [], JObj [], JObj []]) \<and>
   (\<exists>bs. insertData sample_env sample_config (JArr [JObj [], JObj [], JObj []]) [] =
            Some (Inr (), map (\<lambda>b. BulkInsert ''People'' b None) bs) \<and>
          length bs = 2 \<and> length (last bs) = 1)"
proof -
  let ?three = "[JObj [], JObj [], JObj []]"
  have pre: "(1::int) \<le> 2" "batchSize sample_config = 2" "\<forall>cs c. database sample_env cs c = None"
    by (simp_all add: sample_defs)
  have t: "tableName sample_config = ''People''" by (simp add: sample_defs)
  have n: "(length ?three + nat 2 - 1) div nat 2 = 2" "length ?three mod nat 2 = 1" by simp_all
  from batches_partition_dataset [OF pre, of "''People''" ?three "[]" "[]" ?three]
  obtain bs bs' where
    a: "bulkInsertInBatches sample_env ''People'' (JArr ?three) 2 [] [] =
          Some (Inr (), [] @ map (\<lambda>b. BulkInsert ''People'' b (Some (insert_options []))) bs)"
    and la: "length bs = (length ?three + nat 2 - 1) div nat 2"
    and ma: "length ?three mod nat 2 \<noteq> 0 \<longrightarrow> length (last bs) = length ?three mod nat 2"
    and ca: "concat bs = ?three"
    and b: "insertData sample_env sample_config (JArr ?three) [] =
          Some (Inr (), [] @ map (\<lambda>b. BulkInsert (tableName sample_config) b None) bs')"
    and lb: "length bs' = (length ?three + nat 2 - 1) div nat 2"
    and mb: "length ?three mod nat 2 \<noteq> 0 \<longrightarrow> length (last bs') = length ?three mod nat 2"
    by blast
  from la ma have "length bs = 2" "length (last bs) = 1" unfolding n by simp_all
  moreover from lb mb have "length bs' = 2" "length (last bs') = 1" unfolding n by simp_all
  ultimately show ?thesis using pre a b ca unfolding t by auto
qed

text \<open>
  C3, as the code has it.  For a positive batch size, \<open>bulkInsertInBatches\<close> and steps 3
  and 4 of \<open>insertData\<close> both issue, one after the other, a bulk insert for each of the
  same contiguous batches and stop at the first one the database rejects;
  \<open>bulkInsertInBatches\<close> passes the options \<open>{ignoreDuplicates: false, ...options}\<close> with
  every call, \<open>insertData\<close> passes none.  On a database whose answers do not depend on
  the options, the two have the same result and issue the same calls.
\<close>

theorem batch_helpers_agree:
  assumes "0 < batchSize cfg"
  shows "bulkInsertInBatches e (tableName cfg) (JArr data) (batchSize cfg) options calls =
           Some (issue_all e (map (\<lambda>b. BulkInsert (tableName cfg) b (Some (insert_options options)))
                                  (chunks (nat (batchSize cfg)) data)) calls) \<and>
         insertData_batches e cfg data calls =
           Some (issue_all e (map (\<lambda>b. BulkInsert (tableName cfg) b None)
                                  (chunks (nat (batchSize cfg)) data)) calls) \<and>
         ((\<forall>cs c. database e cs c = database e (map strip_options cs) (strip_options c)) \<longrightarrow>
          map_option (map_prod id (map strip_options))
             (bulkInsertInBatches e (tableName cfg) (JArr data) (batchSize cfg) options calls) =
          map_option (map_prod id (map strip_options)) (insertData_batches e cfg data calls))"
proof -
  let ?bs = "chunks (nat (batchSize cfg)) data"
  have a: "bulkInsertInBatches e (tableName cfg) (JArr data) (batchSize cfg) options calls =
           Some (issue_all e (map (\<lambda>b. BulkInsert (tableName cfg) b (Some (insert_options options))) ?bs) calls)"
    using assms by (rule bulkInsertInBatches_chunks)
  have b: "insertData_batches e cfg data calls =
           Some (issue_all e (map (\<lambda>b. BulkInsert (tableName cfg) b None) ?bs) calls)"
    using assms by (rule insertData_batches_chunks)
  have c: "map_prod id (map strip_options)
             (issue_all e (map (\<lambda>b. BulkInsert (tableName cfg) b (Some (insert_options options))) ?bs) calls) =
           map_prod id (map strip_options)
             (issue_all e (map (\<lambda>b. BulkInsert (tableName cfg) b None) ?bs) calls)"
    if "\<forall>cs c. database e cs c = database e (map strip_options cs) (strip_options c)"
    using that by (intro issue_all_strip) (simp_all add: comp_def)
  show ?thesis using a b c by simp
qed


text \<open>The statement of the specification fails at batch size 0: the helper rejects
  it, \<open>insertData\<close> inserts with the default batch size.\<close>

theorem batch_helpers_agree_counterexample:
  "bulkInsertInBatches sample_env ''People'' (JArr [JObj []]) 0 [] [] =
     Some (Inl InvalidConfigError, []) \<and>
   insertData_batches sample_env (sample_config \<lparr>batchSize := 0\<rparr>) [JObj []] [] =
     Some (Inr (), [BulkInsert ''People'' [JObj []] None])"
  by (simp add: run_defs)

theorem batch_helpers_agree_witness:
  "0 < batchSize sample_config \<and>
   (\<forall>cs c. database sample_env cs c = database sample_env (map strip_options cs) (strip_options c)) \<and>
   bulkInsertInBatches sample_env ''People'' (JArr [JObj [], JObj [], JObj []]) 2 [] [] =
     Some (Inr (), [BulkInsert ''People'' [JObj [], JObj []] (Some [(''ignoreDuplicates'', JBool False)]),
                    BulkInsert ''People'' [JObj []] (Some [(''ignoreDuplicates'', JBool False)])]) \<and>
   insertData_batches sample_env sample_config [JObj [], JObj [], JObj []] [] =
     Some (Inr (), [BulkInsert ''People'' [JObj [], JObj []] None, BulkInsert ''People'' [JObj []] None])"
  using batch_helpers_agree [of sample_config sample_env "[JObj [], JObj [], JObj []]" "[]" "[]"]
  by (simp add: sample_defs chunks.simps insert_options_def)

text \<open>
  C4, as the code has it.  \<open>insertData\<close> stamps the record at position \<open>j\<close> with a
  \<open>createdAt\<close> that is the reading \<open>2 * j\<close> of the clock in the call and an \<open>updatedAt\<close>
  that is the reading \<open>2 * j + 1\<close>, replacing fields of these names.  The records all
  carry one instant when the clock does not advance during the call; they are then the
  records that \<open>addTimestamps\<close> makes with that instant.
\<close>

theorem insertData_timestamps:
  "\<exists>stamped. insertData e cfg (JArr items) calls = insertData_batches e cfg stamped calls \<and>
     length stamped = length items \<and>
     (\<forall>j < length items.
        stamped ! j = with_timestamps (items ! j) (JDate (clock e (2 * j))) (JDate (clock e (2 * j + 1))) \<and>
        own_get (js_entries (stamped ! j)) ''createdAt'' = JDate (clock e (2 * j)) \<and>
        own_get (js_entries (stamped ! j)) ''updatedAt'' = JDate (clock e (2 * j + 1))) \<and>
     ((\<forall>k < 2 * length items. clock e k = t) \<longrightarrow>
        stamped = map (\<lambda>item. with_timestamps item (JDate t) (JDate t)) items \<and>
        addTimestamps e (JArr items) (Some t) = Inr stamped)"
proof -
  let ?s = "stamp (clock e) 0 items"
  have a: "insertData e cfg (JArr items) calls = insertData_batches e cfg ?s calls"
    by (simp add: insertData_def)
  have b: "?s ! j = with_timestamps (items ! j) (JDate (clock e (2 * j))) (JDate (clock e (2 * j + 1)))"
    if "j < length items" for j
    using nth_stamp [OF that, of "clock e" 0] by simp
  have c: "?s = map (\<lambda>item. with_timestamps item (JDate t) (JDate t)) items"
    if "\<forall>k < 2 * length items. clock e k = t"
  proof (rule nth_equalityI)
    show "length ?s = length (map (\<lambda>item. with_timestamps item (JDate t) (JDate t)) items)"
      by (simp add: length_stamp)
  next
    fix j assume "j < length ?s"
    then have j: "j < length items" by (simp add: length_stamp)
    then have "clock e (2 * j) = t" "clock e (2 * j + 1) = t" using that by auto
    with b [OF j] j show "?s ! j = map (\<lambda>item. with_timestamps item (JDate t) (JDate t)) items ! j"
      by simp
  qed
  have d: "addTimestamps e (JArr items) (Some t) =
      Inr (map (\<lambda>item. with_timestamps item (JDate t) (JDate t)) items)"
    by (simp add: addTimestamps_def)
  show ?thesis
    using a b c d with_timestamps_fields by (intro exI [of _ ?s]) (simp add: length_stamp)
qed


text \<open>The statement of the specification fails on a clock that advances: two records
  of one call carry four different instants.\<close>

theorem insertData_timestamps_counterexample:
  "insertData sample_env sample_config (JArr [JObj [], JObj []]) [] =
     Some (Inr (), [BulkInsert ''People''
        [JObj [(''createdAt'', JDate 1000), (''updatedAt'', JDate 1001)],
         JObj [(''createdAt'', JDate 1002), (''updatedAt'', JDate 1003)]] None])"
  by (simp add: run_defs)

theorem insertData_timestamps_witness:
  "(\<forall>k. clock frozen_env k = 1000) \<and>
   (\<exists>stamped. insertData frozen_env sample_config (JArr [JObj [], JObj []]) [] =
        insertData_batches frozen_env sample_config stamped [] \<and>
      stamped = [JObj [(''createdAt'', JDate 1000), (''updatedAt'', JDate 1000)],
                 JObj [(''createdAt'', JDate 1000), (''updatedAt'', JDate 1000)]])"
  using insertData_timestamps [of frozen_env sample_config "[JObj [], JObj []]" "[]" 1000]
  by (simp add: frozen_env_def sample_defs with_timestamps_def)

section \<open>Rollback\<close>

text \<open>The inner \<open>catch\<close> of \<open>removeData\<close> is written for a data file that cannot be
  loaded, but it catches every error raised in the targeted step.  Reading a field of
  a null element raises, and the whole table is deleted; the rejection of the targeted
  delete is swallowed, and the whole table is deleted after it.\<close>

lemma js_get_defined:
  "item \<noteq> JNull \<Longrightarrow> item \<noteq> JUndefined \<Longrightarrow> \<exists>v. js_get item field = Inr v"
  by (cases item) simp_all

lemma field_values_null:
  "\<exists>item \<in> set items. item = JNull \<or> item = JUndefined \<Longrightarrow>
   field_values field items = Inl TypeError"
proof (induction items)
  case Nil
  then show ?case by simp
next
  case (Cons item items)
  show ?case
  proof (cases "item = JNull \<or> item = JUndefined")
    case True
    then show ?thesis by auto
  next
    case False
    with Cons have "field_values field items = Inl TypeError" by auto
    moreover from False obtain v where "js_get item field = Inr v"
      using js_get_defined [of item field] by auto
    ultimately show ?thesis by simp
  qed
qed

lemma build_conditions_null:
  assumes "\<exists>item \<in> set items. item = JNull \<or> item = JUndefined" "fieldNames \<noteq> []"
  shows "build_conditions fieldNames items conditions = Inl TypeError"
  using assms by (cases fieldNames) (simp_all add: field_values_null)

lemma removeData_null_element:
  assumes "uniqueFields cfg = Some fieldNames" "fieldNames \<noteq> []"
    and "loadDataFile e (dataFile cfg) = Inr (JArr items)"
    and "\<exists>item \<in> set items. item = JNull \<or> item = JUndefined"
  shows "removeData e cfg calls = remove_all e cfg calls"
proof -
  from assms(4) have "items \<noteq> []" by auto
  moreover have "build_conditions fieldNames items [] = Inl TypeError"
    using assms(4,2) by (rule build_conditions_null)
  ultimately show ?thesis
    using assms(1-3) by (simp add: removeData_def targeted_removal_def)
qed

lemma removeData_rejected_delete:
  assumes "uniqueFields cfg = Some fieldNames" "fieldNames \<noteq> []"
    and "loadDataFile e (dataFile cfg) = Inr (JArr items)" "items \<noteq> []"
    and "build_conditions fieldNames items [] = Inr conditions" "conditions \<noteq> []"
    and "database e calls (BulkDelete (tableName cfg) (Some (Op_or conditions)) None) = Some m"
  shows "removeData e cfg calls =
         remove_all e cfg (calls @ [BulkDelete (tableName cfg) (Some (Op_or conditions)) None])"
  using assms by (simp add: removeData_def targeted_removal_def Let_def)

text \<open>
  C5.  The specification has \<open>removeData\<close> issue exactly one bulk delete: the targeted
  one when the data file holds a value of some unique field, the unconditional one
  when the file cannot be loaded or yields no usable value.  On the sample file, whose
  record has both unique fields, and a database that rejects the targeted delete, the
  code issues the targeted delete, swallows its rejection, deletes the whole table and
  reports success.  On a file that holds a value of a unique field next to a null
  element, the code deletes the whole table.
\<close>

theorem removeData_inner_catch:
  "loadDataFile refusing_env (dataFile sample_config) =
     Inr (JArr [JObj [(''userName'', JStr ''a''), (''email'', JStr ''a@x.com'')]]) \<and>
   removeData refusing_env sample_config [] =
     (Inr (), [BulkDelete ''People''
                 (Some (Op_or [(''userName'', [JStr ''a'']), (''email'', [JStr ''a@x.com''])])) None,
               BulkDelete ''People'' None (Some [])]) \<and>
   loadDataFile sample_env ''data/holes.json'' = Inr (JArr [JNull, JObj [(''userName'', JStr ''a'')]]) \<and>
   removeData sample_env (sample_config \<lparr>dataFile := ''data/holes.json''\<rparr>) [] =
     (Inr (), [BulkDelete ''People'' None (Some [])])"
  by (simp add: removeData_def targeted_removal_def remove_all_def loadDataFile_def sample_defs
      refusing_env_def own_get_def Let_def)

end
